theory Spec2Isabelle
  imports Main
begin

section \<open>JavaScript values used by the cron expression code\<close>

text \<open>
  A JavaScript number as far as the program can produce one: an integer, \<open>NaN\<close> or an
  infinity. Integers are kept exact; a double is exact below \<open>2 ^ 53\<close>, which covers the
  program's constraint tables and every calendar component. A decimal numeral that is
  too large for a double becomes an infinity, as \<open>ToNumber\<close> does.
\<close>

datatype jsnum = Num int | NaN | PInf | NInf

text \<open>The relational operators \<open><\<close>, \<open>>\<close>, \<open><=\<close>, \<open>>=\<close>: false whenever an operand is \<open>NaN\<close>.\<close>

fun js_lt :: "jsnum \<Rightarrow> jsnum \<Rightarrow> bool" where
  "js_lt NaN _ = False"
| "js_lt _ NaN = False"
| "js_lt (Num a) (Num b) = (a < b)"
| "js_lt _ NInf = False"
| "js_lt NInf _ = True"
| "js_lt PInf _ = False"
| "js_lt (Num a) PInf = True"

definition js_gt :: "jsnum \<Rightarrow> jsnum \<Rightarrow> bool" where
  "js_gt a b = js_lt b a"

fun js_le :: "jsnum \<Rightarrow> jsnum \<Rightarrow> bool" where
  "js_le NaN _ = False"
| "js_le _ NaN = False"
| "js_le a b = (\<not> js_lt b a)"

definition js_ge :: "jsnum \<Rightarrow> jsnum \<Rightarrow> bool" where
  "js_ge a b = js_le b a"

text \<open>Strict equality \<open>===\<close> on numbers: \<open>NaN\<close> equals nothing.\<close>

fun js_seq :: "jsnum \<Rightarrow> jsnum \<Rightarrow> bool" where
  "js_seq NaN _ = False"
| "js_seq _ NaN = False"
| "js_seq a b = (a = b)"

definition safeIsNaN :: "jsnum \<Rightarrow> bool" where
  "safeIsNaN x = (x = NaN)"

text \<open>
  The remainder operator \<open>%\<close>: the result has the sign of the dividend (truncated
  division); a zero divisor or an infinite dividend gives \<open>NaN\<close>, an infinite divisor
  leaves a finite dividend as it is.
\<close>

definition int_rem :: "int \<Rightarrow> int \<Rightarrow> int" where
  "int_rem a b = sgn a * (\<bar>a\<bar> mod \<bar>b\<bar>)"

fun js_rem :: "jsnum \<Rightarrow> jsnum \<Rightarrow> jsnum" where
  "js_rem (Num a) (Num b) = (if b = 0 then NaN else Num (int_rem a b))"
| "js_rem (Num a) PInf = Num a"
| "js_rem (Num a) NInf = Num a"
| "js_rem _ _ = NaN"

text \<open>The postfix increment \<open>x++\<close> on a number.\<close>

fun js_inc :: "jsnum \<Rightarrow> jsnum" where
  "js_inc (Num a) = Num (a + 1)"
| "js_inc x = x"

text \<open>
  \<open>Math.max.apply(Math, xs)\<close>: \<open>-Infinity\<close> for no argument, \<open>NaN\<close> as soon as one
  argument is \<open>NaN\<close>.
\<close>

fun js_max2 :: "jsnum \<Rightarrow> jsnum \<Rightarrow> jsnum" where
  "js_max2 NaN _ = NaN"
| "js_max2 _ NaN = NaN"
| "js_max2 a b = (if js_lt a b then b else a)"

fun math_max :: "jsnum list \<Rightarrow> jsnum" where
  "math_max [] = NInf"
| "math_max (x # xs) = js_max2 x (math_max xs)"

subsection \<open>Strings\<close>

text \<open>
  Strings are \<open>char list\<close>. Every character the program accepts in a field is ASCII, so
  one \<open>char\<close> stands for one UTF-16 code unit of the source.
\<close>

definition is_digit :: "char \<Rightarrow> bool" where
  "is_digit c = (c \<in> set ''0123456789'')"

definition digit_val :: "char \<Rightarrow> int" where
  "digit_val c = of_char c - 48"

definition digit_char :: "nat \<Rightarrow> char" where
  "digit_char n = ''0123456789'' ! n"

text \<open>The value of a decimal digit string, most significant digit first.\<close>

fun dec_val :: "int \<Rightarrow> string \<Rightarrow> int" where
  "dec_val acc [] = acc"
| "dec_val acc (c # cs) = dec_val (10 * acc + digit_val c) cs"

text \<open>
  The first integer that rounds to \<open>Infinity\<close> as a double: half way between the largest
  finite double \<open>2 ^ 1024 - 2 ^ 971\<close> and \<open>2 ^ 1024\<close>.
\<close>

definition double_overflow :: int where
  "double_overflow = 2 ^ 1024 - 2 ^ 970"

definition num_of_digits :: "string \<Rightarrow> jsnum" where
  "num_of_digits ds = (let v = dec_val 0 ds in if double_overflow \<le> v then PInf else Num v)"

fun js_neg :: "jsnum \<Rightarrow> jsnum" where
  "js_neg (Num a) = Num (- a)"
| "js_neg PInf = NInf"
| "js_neg NInf = PInf"
| "js_neg NaN = NaN"

text \<open>
  \<open>ToNumber\<close> on a string (the unary \<open>+\<close> of the source). The texts that reach it are
  made of digits, \<open>|\<close> and \<open>-\<close> only, since the character check of \<open>_parseField\<close> has run
  and \<open>,\<close>, \<open>/\<close>, \<open>*\<close> are gone: the empty string is 0, a digit string is its decimal
  value, a \<open>-\<close> followed by a digit string is its negation, anything else is \<open>NaN\<close>.
  (The other numeric literals of JavaScript need a character the check rejects.)
\<close>

definition toNumber :: "string \<Rightarrow> jsnum" where
  "toNumber s =
     (if s = [] then Num 0
      else if list_all is_digit s then num_of_digits s
      else if hd s = CHR ''-'' \<and> tl s \<noteq> [] \<and> list_all is_digit (tl s)
        then js_neg (num_of_digits (tl s))
      else NaN)"

text \<open>\<open>parseInt(s, 10)\<close> on a string of digits only (what the sort comparator passes).\<close>

definition parseInt_digits :: "string \<Rightarrow> jsnum" where
  "parseInt_digits s = (if s = [] then NaN else num_of_digits s)"

text \<open>Number to string, as \<open>join\<close> and \<open>replace\<close> print an integer.\<close>

fun string_of_nat :: "nat \<Rightarrow> string" where
  "string_of_nat n =
     (if n < 10 then [digit_char n] else string_of_nat (n div 10) @ [digit_char (n mod 10)])"

definition string_of_int :: "int \<Rightarrow> string" where
  "string_of_int i = (if i < 0 then CHR ''-'' # string_of_nat (nat (- i)) else string_of_nat (nat i))"

text \<open>\<open>s.split(c)\<close> for a one-character separator: never empty, \<open>''''.split(c)\<close> is \<open>['''']\<close>.\<close>

fun split :: "char \<Rightarrow> string \<Rightarrow> string list" where
  "split c [] = [[]]"
| "split c (x # xs) =
     (if x = c then [] # split c xs
      else (case split c xs of [] \<Rightarrow> [[x]] | w # ws \<Rightarrow> (x # w) # ws))"

text \<open>Reading an array element: \<open>undefined\<close> (\<open>None\<close>) outside the array.\<close>

definition js_index :: "'a list \<Rightarrow> int \<Rightarrow> 'a option" where
  "js_index xs i = (if 0 \<le> i \<and> i < int (length xs) then Some (xs ! nat i) else None)"

section \<open>The field parser\<close>

datatype field = Second | Minute | Hour | DayOfMonth | Month | DayOfWeek

text \<open>The messages of the \<open>Error\<close>s the program throws, with the values they print.\<close>

datatype error =
    CannotResolveAlias string
  | InvalidCharacters string
  | ConstraintValue jsnum
  | ConstraintRange jsnum jsnum
  | InvalidRange string
  | CannotRepeat jsnum
  | InvalidExplicitDayOfMonth

text \<open>A pair \<open>[min, max]\<close> of the table \<open>CronExpression.constraints\<close>.\<close>

type_synonym constraint = "int \<times> int"

text \<open>What \<open>parseRange\<close> returns: a number or an array of numbers.\<close>

datatype result = Scalar jsnum | Arr "jsnum list"

text \<open>The second argument of \<open>parseRange\<close>: the number 1 or the text after the last \<open>/\<close>.\<close>

datatype interval = INum jsnum | IStr string

fun interval_number :: "interval \<Rightarrow> jsnum" where
  "interval_number (INum n) = n"
| "interval_number (IStr s) = toNumber s"

text \<open>
  The \<open>for\<close> loop of \<open>parseRange\<close>, from \<open>index\<close> to \<open>count\<close> inclusive. \<open>repeatIndex\<close> is
  the running counter, \<open>repeatInterval\<close> the step as a number (the source converts the
  text at every \<open>%\<close>). The list returned is what the loop pushes, in order.
\<close>

function range_loop :: "int \<Rightarrow> int \<Rightarrow> jsnum \<Rightarrow> jsnum \<Rightarrow> jsnum list" where
  "range_loop index count repeatIndex repeatInterval =
     (if index \<le> count then
        (if js_gt repeatIndex (Num 0) \<and> js_seq (js_rem repeatIndex repeatInterval) (Num 0)
         then Num index # range_loop (index + 1) count (Num 1) repeatInterval
         else range_loop (index + 1) count (js_inc repeatIndex) repeatInterval)
      else [])"
  by pat_completeness auto
termination
  by (relation "measure (\<lambda>(index, count, _, _). nat (count + 1 - index))") auto

declare range_loop.simps [simp del]

text \<open>
  \<open>parseRange(val, repeatInterval)\<close>. After the two range checks \<open>min\<close> and \<open>max\<close> are
  finite integers (lemma \<open>range_bounds_finite\<close> below), so the loop runs over \<open>int\<close>;
  the last case is never reached.
\<close>

definition parseRange :: "constraint \<Rightarrow> string \<Rightarrow> interval \<Rightarrow> error + result" where
  "parseRange constraints val repeatInterval =
     (let atoms = split (CHR ''-'') val in
      if length atoms > 1 then
        (if length atoms < 2 \<or> hd atoms = [] then Inr (Scalar (toNumber val))
         else
           let min = toNumber (atoms ! 0); max = toNumber (atoms ! 1) in
           if safeIsNaN min \<or> safeIsNaN max \<or>
              js_lt min (Num (fst constraints)) \<or> js_gt max (Num (snd constraints))
           then Inl (ConstraintRange min max)
           else if js_ge min max then Inl (InvalidRange val)
           else
             let repeatIndex = interval_number repeatInterval in
             if safeIsNaN repeatIndex \<or> js_le repeatIndex (Num 0)
             then Inl (CannotRepeat repeatIndex)
             else (case (min, max) of
                     (Num lo, Num hi) \<Rightarrow>
                       Inr (Arr (range_loop lo hi repeatIndex (interval_number repeatInterval)))
                   | _ \<Rightarrow> Inr (Arr [])))
      else Inr (Scalar (toNumber val)))"

text \<open>\<open>parseRepeat(val)\<close>: the text before the first \<open>/\<close> and the text after the last one.\<close>

definition parseRepeat :: "constraint \<Rightarrow> string \<Rightarrow> error + result" where
  "parseRepeat constraints val =
     (let atoms = split (CHR ''/'') val in
      if length atoms > 1 then parseRange constraints (atoms ! 0) (IStr (last atoms))
      else parseRange constraints val (INum (Num 1)))"

text \<open>
  The loop of \<open>handleResult\<close> over an array result. \<open>maxv\<close> (the source's \<open>max\<close>) is recomputed from the stack
  after every element.
\<close>

fun handleArray :: "constraint \<Rightarrow> jsnum list \<Rightarrow> jsnum \<Rightarrow> jsnum list \<Rightarrow> error + jsnum list" where
  "handleArray constraints stack maxv [] = Inr stack"
| "handleArray constraints stack maxv (v # vs) =
     (if js_lt v (Num (fst constraints)) \<or> js_gt v (Num (snd constraints))
      then Inl (ConstraintValue v)
      else
        let stack' = (if js_gt v maxv then stack @ [v] else stack)
        in handleArray constraints stack' (math_max stack') vs)"

text \<open>
  \<open>handleResult(result)\<close>, with the \<open>stack\<close> it closes over passed in and returned. The
  scalar branch pushes without looking at \<open>max\<close>.
\<close>

definition handleResult ::
  "field \<Rightarrow> constraint \<Rightarrow> jsnum list \<Rightarrow> result \<Rightarrow> error + jsnum list" where
  "handleResult fld constraints stack res =
     (let max = (if length stack > 0 then math_max stack else Num (- 1)) in
      case res of
        Arr vs \<Rightarrow> handleArray constraints stack max vs
      | Scalar r \<Rightarrow>
          if js_lt r (Num (fst constraints)) \<or> js_gt r (Num (snd constraints))
          then Inl (ConstraintValue r)
          else Inr (stack @ [if fld = DayOfWeek then js_rem r (Num 7) else r]))"

text \<open>
  The comparator of \<open>atoms.sort\<close>: the atoms' digits read as one decimal number each, and
  the difference of the two. \<open>Array.prototype.sort\<close> takes \<open>NaN\<close> as 0.
\<close>

fun js_sub :: "jsnum \<Rightarrow> jsnum \<Rightarrow> jsnum" where
  "js_sub (Num a) (Num b) = Num (a - b)"
| "js_sub NaN _ = NaN"
| "js_sub _ NaN = NaN"
| "js_sub PInf PInf = NaN"
| "js_sub NInf NInf = NaN"
| "js_sub PInf _ = PInf"
| "js_sub NInf _ = NInf"
| "js_sub _ PInf = NInf"
| "js_sub _ NInf = PInf"

definition comparator :: "string \<Rightarrow> string \<Rightarrow> jsnum" where
  "comparator a b =
     js_sub (parseInt_digits (filter is_digit a)) (parseInt_digits (filter is_digit b))"

text \<open>
  \<open>atoms.sort(comparator)\<close> as a stable insertion sort. The standard leaves the
  algorithm open: when every atom holds a digit the comparator is a total preorder and
  every stable sort returns this list; with an atom without digits the comparator
  answers \<open>NaN\<close> and the order depends on the engine.
\<close>

fun sort_insert :: "string \<Rightarrow> string list \<Rightarrow> string list" where
  "sort_insert x [] = [x]"
| "sort_insert x (y # ys) =
     (if js_gt (comparator x y) (Num 0) then y # sort_insert x ys else x # y # ys)"

definition sort_atoms :: "string list \<Rightarrow> string list" where
  "sort_atoms atoms = foldr sort_insert atoms []"

text \<open>The \<open>for\<close> loop of \<open>parseSequence\<close> over the sorted atoms.\<close>

fun handleAtoms :: "field \<Rightarrow> constraint \<Rightarrow> jsnum list \<Rightarrow> string list \<Rightarrow> error + jsnum list" where
  "handleAtoms fld constraints stack [] = Inr stack"
| "handleAtoms fld constraints stack (a # as) =
     (case parseRepeat constraints a of
        Inl e \<Rightarrow> Inl e
      | Inr r \<Rightarrow>
          (case handleResult fld constraints stack r of
             Inl e \<Rightarrow> Inl e
           | Inr stack' \<Rightarrow> handleAtoms fld constraints stack' as))"

definition parseSequence :: "field \<Rightarrow> constraint \<Rightarrow> string \<Rightarrow> error + jsnum list" where
  "parseSequence fld constraints val =
     (let atoms = split (CHR '','') val in
      if length atoms > 1 then handleAtoms fld constraints [] (sort_atoms atoms)
      else
        (case parseRepeat constraints val of
           Inl e \<Rightarrow> Inl e
         | Inr r \<Rightarrow> handleResult fld constraints [] r))"

subsection \<open>Aliases\<close>

text \<open>\<open>CronExpression.aliases\<close>; the other fields have no table.\<close>

fun aliases :: "field \<Rightarrow> (string \<times> int) list" where
  "aliases Month =
     [(''jan'', 1), (''feb'', 2), (''mar'', 3), (''apr'', 4), (''may'', 5), (''jun'', 6),
      (''jul'', 7), (''aug'', 8), (''sep'', 9), (''oct'', 10), (''nov'', 11), (''dec'', 12)]"
| "aliases DayOfWeek =
     [(''sun'', 0), (''mon'', 1), (''tue'', 2), (''wed'', 3), (''thu'', 4), (''fri'', 5),
      (''sat'', 6)]"
| "aliases _ = []"

text \<open>
  The values the replace callback handles: a table entry is a number, a missing key
  reads as \<open>undefined\<close>, and \<open>typeof\<close> gives a string.
\<close>

datatype jsval = JUndefined | JNumber int | JString string

fun typeof :: "jsval \<Rightarrow> string" where
  "typeof JUndefined = ''undefined''"
| "typeof (JNumber _) = ''number''"
| "typeof (JString _) = ''string''"

fun js_to_string :: "jsval \<Rightarrow> string" where
  "js_to_string JUndefined = ''undefined''"
| "js_to_string (JNumber n) = string_of_int n"
| "js_to_string (JString s) = s"

definition alias_lookup :: "(string \<times> int) list \<Rightarrow> string \<Rightarrow> jsval" where
  "alias_lookup table key = (case map_of table key of None \<Rightarrow> JUndefined | Some n \<Rightarrow> JNumber n)"

definition is_alpha :: "char \<Rightarrow> bool" where
  "is_alpha c = (c \<in> set ''abcdefghijklmnopqrstuvwxyzABCDEFGHIJKLMNOPQRSTUVWXYZ'')"

definition lower_char :: "char \<Rightarrow> char" where
  "lower_char c =
     (case map_of (zip ''ABCDEFGHIJKLMNOPQRSTUVWXYZ'' ''abcdefghijklmnopqrstuvwxyz'') c of
        None \<Rightarrow> c | Some l \<Rightarrow> l)"

definition toLowerCase :: "string \<Rightarrow> string" where
  "toLowerCase s = map lower_char s"

text \<open>
  The callback given to \<open>replace\<close>. The source compares the string \<open>typeof aliases[match]\<close>
  with the value \<open>undefined\<close> by \<open>!==\<close>; both sides are kept as the source has them.
\<close>

definition alias_callback :: "(string \<times> int) list \<Rightarrow> string \<Rightarrow> error + jsval" where
  "alias_callback table m =
     (let match = toLowerCase m in
      if JString (typeof (alias_lookup table match)) \<noteq> JUndefined
      then Inr (alias_lookup table match)
      else Inl (CannotResolveAlias match))"

text \<open>
  \<open>value.replace(/[a-z]{1,3}/gi, callback)\<close>: from left to right, each run of up to three
  letters is replaced by what the callback returns, printed as a string.
\<close>

fun replace_aliases :: "(string \<times> int) list \<Rightarrow> string \<Rightarrow> error + string" where
  "replace_aliases table [] = Inr []"
| "replace_aliases table (c # cs) =
     (if is_alpha c then
        (case alias_callback table (c # takeWhile is_alpha (take 2 cs)) of
           Inl e \<Rightarrow> Inl e
         | Inr v \<Rightarrow>
             (case replace_aliases table (drop (length (takeWhile is_alpha (take 2 cs))) cs) of
                Inl e \<Rightarrow> Inl e
              | Inr rest \<Rightarrow> Inr (js_to_string v @ rest)))
      else
        (case replace_aliases table cs of
           Inl e \<Rightarrow> Inl e
         | Inr rest \<Rightarrow> Inr (c # rest)))"

subsection \<open>\<open>_parseField\<close>\<close>

text \<open>The test \<open>/^[\d|/|*|\-|,]+$/\<close>: one or more of the digits and \<open>| / * - ,\<close>.\<close>

definition valid_char :: "char \<Rightarrow> bool" where
  "valid_char c = (c \<in> set ''0123456789|/*-,'')"

definition valid_characters :: "string \<Rightarrow> bool" where
  "valid_characters value = (value \<noteq> [] \<and> list_all valid_char value)"

text \<open>\<open>value.replace(/\*/g, constraints.join('-'))\<close>.\<close>

definition replace_star :: "constraint \<Rightarrow> string \<Rightarrow> string" where
  "replace_star constraints value =
     concat (map (\<lambda>c. if c = CHR ''*''
                       then string_of_int (fst constraints) @ ''-'' @ string_of_int (snd constraints)
                       else [c]) value)"

definition parseField :: "field \<Rightarrow> string \<Rightarrow> constraint \<Rightarrow> error + jsnum list" where
  "parseField fld value constraints =
     (case (if fld = Month \<or> fld = DayOfWeek then replace_aliases (aliases fld) value
            else Inr value) of
        Inl e \<Rightarrow> Inl e
      | Inr value1 \<Rightarrow>
          if valid_characters value1 then
            parseSequence fld constraints
              (if CHR ''*'' \<in> set value1 then replace_star constraints value1 else value1)
          else Inl (InvalidCharacters value1))"

section \<open>Parsing an expression\<close>

text \<open>The tables \<open>CronExpression.map\<close>, \<open>predefined\<close>, \<open>constraints\<close> and \<open>parseDefaults\<close>.\<close>

definition map_fields :: "field list" where
  "map_fields = [Second, Minute, Hour, DayOfMonth, Month, DayOfWeek]"

definition predefined :: "(string \<times> string) list" where
  "predefined =
     [(''@yearly'', ''0 0 1 1 *''),
      (''@monthly'', ''0 0 1 * *''),
      (''@weekly'', ''0 0 * * 0''),
      (''@daily'', ''0 0 * * *''),
      (''@hourly'', ''0 * * * *'')]"

definition constraints :: "constraint list" where
  "constraints = [(0, 59), (0, 59), (0, 23), (1, 31), (1, 12), (0, 7)]"

definition parseDefaults :: "string list" where
  "parseDefaults = [''*'', ''*'', ''*'', ''*'', ''*'', ''*'']"

text \<open>The six arrays of \<open>this._fields\<close>, as the constructor stores them under their keys.\<close>

record fields =
  second :: "jsnum list"
  minute :: "jsnum list"
  hour :: "jsnum list"
  dayOfMonth :: "jsnum list"
  month :: "jsnum list"
  dayOfWeek :: "jsnum list"

definition CronExpression :: "jsnum list list \<Rightarrow> fields" where
  "CronExpression fs =
     \<lparr>second = fs ! 0, minute = fs ! 1, hour = fs ! 2,
      dayOfMonth = fs ! 3, month = fs ! 4, dayOfWeek = fs ! 5\<rparr>"

text \<open>
  White space of \<open>trim\<close> and of \<open>/\s+/\<close>, for ASCII text: space, tab, line feed, vertical
  tab, form feed, carriage return.
\<close>

definition is_space :: "char \<Rightarrow> bool" where
  "is_space c = (c \<in> set [CHR '' '', CHR 0x09, CHR 0x0A, CHR 0x0B, CHR 0x0C, CHR 0x0D])"

definition trim :: "string \<Rightarrow> string" where
  "trim s = rev (dropWhile is_space (rev (dropWhile is_space s)))"

text \<open>\<open>s.split(/\s+/)\<close>: each run of white space separates two atoms.\<close>

function split_spaces :: "string \<Rightarrow> string list" where
  "split_spaces [] = [[]]"
| "split_spaces (c # cs) =
     (if is_space c then [] # split_spaces (dropWhile is_space cs)
      else (case split_spaces cs of [] \<Rightarrow> [[c]] | w # ws \<Rightarrow> (c # w) # ws))"
  by pat_completeness auto
termination
  by (relation "measure length") (auto simp: le_imp_less_Suc length_dropWhile_le)

text \<open>
  The loop of \<open>parse\<close> over the field positions \<open>i\<close>, given as a list. An atom that is
  missing (\<open>undefined\<close>) or empty is falsy, and the default is compiled in its place.
\<close>

fun resolveFields :: "string list \<Rightarrow> int \<Rightarrow> nat list \<Rightarrow> error + jsnum list list" where
  "resolveFields atoms start [] = Inr []"
| "resolveFields atoms start (i # is) =
     (let fld = map_fields ! i;
          value = js_index atoms (if length atoms > length map_fields then int i else int i - start)
      in
        (case (if int i < start \<or> value = None \<or> value = Some []
               then parseField fld (parseDefaults ! i) (constraints ! i)
               else parseField fld (case value of Some v \<Rightarrow> v | None \<Rightarrow> []) (constraints ! i)) of
           Inl e \<Rightarrow> Inl e
         | Inr v \<Rightarrow>
             (case resolveFields atoms start is of
                Inl e \<Rightarrow> Inl e
              | Inr vs \<Rightarrow> Inr (v # vs))))"

text \<open>
  \<open>CronExpression.parse(expression)\<close>. The options only carry dates and a time zone, which
  no field depends on. A name of the \<open>predefined\<close> table is replaced by its expression.
\<close>

definition parse :: "string \<Rightarrow> error + fields" where
  "parse expression =
     (let expression1 = (case map_of predefined expression of Some e \<Rightarrow> e | None \<Rightarrow> expression);
          atoms = split_spaces (trim expression1);
          start = int (length map_fields) - int (length atoms)
      in
        (case resolveFields atoms start [0 ..< length map_fields] of
           Inl e \<Rightarrow> Inl e
         | Inr fs \<Rightarrow> Inr (CronExpression fs)))"

section \<open>Testing a date\<close>

text \<open>
  What \<open>test\<close> reads from the \<open>CronDate\<close> of its argument. The calendar itself is the
  \<open>moment\<close> library's; \<open>getMonth\<close> counts from 0, \<open>getDay\<close> from Sunday = 0.
\<close>

record cronDate =
  getFullYear :: int
  getMonth :: int
  getDate :: int
  getDay :: int
  getHours :: int
  getMinutes :: int
  getSeconds :: int

definition daysInMonth :: "int list" where
  "daysInMonth = [31, 28, 31, 30, 31, 30, 31, 31, 30, 31, 30, 31]"

text \<open>The loop of \<open>matchSchedule\<close>: the answer at the first element \<open>>= value\<close>, if any.\<close>

fun matchLoop :: "int \<Rightarrow> jsnum list \<Rightarrow> bool option" where
  "matchLoop value [] = None"
| "matchLoop value (x # xs) =
     (if js_ge x (Num value) then Some (js_seq x (Num value)) else matchLoop value xs)"

text \<open>\<open>matchSchedule(value, sequence)\<close>; \<open>sequence[0]\<close> of an empty array is \<open>undefined\<close>.\<close>

definition matchSchedule :: "int \<Rightarrow> jsnum list \<Rightarrow> bool" where
  "matchSchedule value sequence =
     (case matchLoop value sequence of
        Some b \<Rightarrow> b
      | None \<Rightarrow> (case js_index sequence 0 of None \<Rightarrow> False | Some x \<Rightarrow> js_seq x (Num value)))"

text \<open>
  \<open>isWildcardRange(range, constraints)\<close>, the constraints as the array they are
  (\<open>rng\<close> is the source's \<open>range\<close>).
\<close>

definition isWildcardRange :: "jsnum list \<Rightarrow> int list \<Rightarrow> bool" where
  "isWildcardRange rng cs =
     (if rng = [] then False
      else if length cs \<noteq> 2 then False
      else int (length rng) = cs ! 1 - (if cs ! 0 < 1 then - 1 else 0))"

definition constraint_array :: "constraint \<Rightarrow> int list" where
  "constraint_array c = [fst c, snd c]"

text \<open>
  The block that validates the days in the month. \<open>isLeap\<close> is the source's expression
  \<open>!((y % 4) || (!(y % 100) && (y % 400)))\<close>, a number being truthy when it is not 0.
\<close>

definition truthy :: "int \<Rightarrow> bool" where
  "truthy n = (n \<noteq> 0)"

definition isLeap :: "int \<Rightarrow> bool" where
  "isLeap currentYear =
     (\<not> (truthy (int_rem currentYear 4) \<or>
         (\<not> truthy (int_rem currentYear 100) \<and> truthy (int_rem currentYear 400))))"

definition previousMonth :: "cronDate \<Rightarrow> int" where
  "previousMonth d =
     (let currentMonth = getMonth d + 1 in if currentMonth = 1 then 11 else currentMonth - 1)"

text \<open>
  The pair \<open>(_daysInPreviousMonth, _daysOfMontRangeMax)\<close> after the leap year
  adjustment; \<open>None\<close> is \<open>undefined\<close>.
\<close>

definition adjustedDays :: "fields \<Rightarrow> cronDate \<Rightarrow> jsnum option \<times> jsnum option" where
  "adjustedDays f d =
     (let daysInPreviousMonth = js_index (map Num daysInMonth) (previousMonth d - 1);
          daysOfMontRangeMax = js_index (dayOfMonth f) (int (length (dayOfMonth f)) - 1)
      in if isLeap (getFullYear d) then (Some (Num 29), Some (Num 29))
         else (daysInPreviousMonth, daysOfMontRangeMax))"

text \<open>\<open>ToNumber\<close> of a value that may be \<open>undefined\<close>, as \<open><\<close> applies it.\<close>

fun number_of :: "jsnum option \<Rightarrow> jsnum" where
  "number_of None = NaN"
| "number_of (Some x) = x"

text \<open>The condition under which \<open>test\<close> throws.\<close>

definition invalidExplicitDay :: "fields \<Rightarrow> cronDate \<Rightarrow> bool" where
  "invalidExplicitDay f d =
     (previousMonth d = 2 \<and>
      (case js_index (month f) 0 of None \<Rightarrow> False | Some m \<Rightarrow> js_seq m (Num (previousMonth d))) \<and>
      js_lt (number_of (fst (adjustedDays f d))) (number_of (snd (adjustedDays f d))))"

definition test :: "fields \<Rightarrow> cronDate \<Rightarrow> error + bool" where
  "test f d =
     (let dayOfMonthMatch = matchSchedule (getDate d) (dayOfMonth f);
          dayOfWeekMatch = matchSchedule (getDay d) (dayOfWeek f);
          isDayOfMonthWildcardMatch = isWildcardRange (dayOfMonth f) (constraint_array (constraints ! 3));
          isMonthWildcardMatch = isWildcardRange (month f) (constraint_array (constraints ! 4));
          isDayOfWeekWildcardMatch = isWildcardRange (dayOfWeek f) (constraint_array (constraints ! 5))
      in
        if \<not> isMonthWildcardMatch \<and> invalidExplicitDay f d then Inl InvalidExplicitDayOfMonth
        else if \<not> dayOfMonthMatch \<and> \<not> dayOfWeekMatch then Inr False
        else if \<not> isDayOfMonthWildcardMatch \<and> isDayOfWeekWildcardMatch \<and> \<not> dayOfMonthMatch
          then Inr False
        else if isDayOfMonthWildcardMatch \<and> \<not> isDayOfWeekWildcardMatch \<and> \<not> dayOfWeekMatch
          then Inr False
        else if \<not> (isDayOfMonthWildcardMatch \<and> isDayOfWeekWildcardMatch) \<and>
                \<not> dayOfMonthMatch \<and> \<not> dayOfWeekMatch
          then Inr False
        else if \<not> matchSchedule (getMonth d + 1) (month f) then Inr False
        else if \<not> matchSchedule (getHours d) (hour f) then Inr False
        else if \<not> matchSchedule (getMinutes d) (minute f) then Inr False
        else if \<not> matchSchedule (getSeconds d) (second f) then Inr False
        else Inr True)"

section \<open>The specification's wording, for comparison\<close>

text \<open>
  The step emission of the specification (section 4.1, step 5): walk the range with a
  counter that starts at 1; at each index, if the counter is an exact multiple of the
  step, emit the index and reset the counter to 1, otherwise increment the counter.
  \<open>spec_walk index mx counter step\<close> is the walk from \<open>index\<close> on.
\<close>

function spec_walk :: "int \<Rightarrow> int \<Rightarrow> int \<Rightarrow> int \<Rightarrow> int list" where
  "spec_walk index mx counter step =
     (if index \<le> mx then
        (if counter mod step = 0 then index # spec_walk (index + 1) mx 1 step
         else spec_walk (index + 1) mx (counter + 1) step)
      else [])"
  by pat_completeness auto
termination
  by (relation "measure (\<lambda>(index, mx, _, _). nat (mx + 1 - index))") auto

declare spec_walk.simps [simp del]

text \<open>
  The specification's \<open>isWildcardSpan\<close> (section 4.2): the set is not empty and its length
  is \<open>max - min\<close>, plus 1 when \<open>min < 1\<close>.
\<close>

definition spec_isWildcardSpan :: "jsnum list \<Rightarrow> constraint \<Rightarrow> bool" where
  "spec_isWildcardSpan S c =
     (S \<noteq> [] \<and> int (length S) = snd c - fst c + (if fst c < 1 then 1 else 0))"

text \<open>
  The Gregorian leap year rule: a year divisible by 4, a century only when divisible by
  400.
\<close>

definition leap_year :: "int \<Rightarrow> bool" where
  "leap_year y = (if y mod 100 = 0 then y mod 400 = 0 else y mod 4 = 0)"

text \<open>
  The specification's condition for the calendar check (section 4.2): the first element
  of the month set is the month before the current one, and the last element of the
  day-of-month set exceeds the number of days of that month, 29 for February in a leap
  year.
\<close>

definition spec_daysInPrev :: "cronDate \<Rightarrow> int" where
  "spec_daysInPrev d =
     (if leap_year (getFullYear d) \<and> previousMonth d = 2 then 29
      else (case js_index daysInMonth (previousMonth d - 1) of Some n \<Rightarrow> n | None \<Rightarrow> 0))"

definition spec_check_fires :: "fields \<Rightarrow> cronDate \<Rightarrow> bool" where
  "spec_check_fires f d =
     (month f \<noteq> [] \<and> dayOfMonth f \<noteq> [] \<and>
      hd (month f) = Num (previousMonth d) \<and>
      js_lt (Num (spec_daysInPrev d)) (last (dayOfMonth f)))"

section \<open>Example expressions and dates\<close>

text \<open>
  What \<open>parse\<close> returns for \<open>30 4 1,15 * 5\<close>, for \<open>0 0 0 31 2 *\<close> and for
  \<open>0 0 0 31 4 *\<close> (lemma \<open>parse_examples\<close>).
\<close>

definition posix_example :: fields where
  "posix_example =
     \<lparr>second = map Num [0..59], minute = [Num 30], hour = [Num 4],
      dayOfMonth = [Num 1, Num 15], month = map Num [1..12], dayOfWeek = [Num 5]\<rparr>"

definition february_31 :: fields where
  "february_31 =
     \<lparr>second = [Num 0], minute = [Num 0], hour = [Num 0],
      dayOfMonth = [Num 31], month = [Num 2], dayOfWeek = map Num [0..7]\<rparr>"

definition april_31 :: fields where
  "april_31 =
     \<lparr>second = [Num 0], minute = [Num 0], hour = [Num 0],
      dayOfMonth = [Num 31], month = [Num 4], dayOfWeek = map Num [0..7]\<rparr>"

text \<open>
  Dates by year, month index (from 0), day of the month and day of the week, at 00:00:00
  and at 04:30:00.
\<close>

definition at_midnight :: "int \<Rightarrow> int \<Rightarrow> int \<Rightarrow> int \<Rightarrow> cronDate" where
  "at_midnight y m day wd =
     \<lparr>getFullYear = y, getMonth = m, getDate = day, getDay = wd,
      getHours = 0, getMinutes = 0, getSeconds = 0\<rparr>"

definition at_half_past_four :: "int \<Rightarrow> int \<Rightarrow> int \<Rightarrow> int \<Rightarrow> cronDate" where
  "at_half_past_four y m day wd =
     \<lparr>getFullYear = y, getMonth = m, getDate = day, getDay = wd,
      getHours = 4, getMinutes = 30, getSeconds = 0\<rparr>"

section \<open>Ranges and steps\<close>

lemma range_loop_done: "\<not> index \<le> count \<Longrightarrow> range_loop index count r n = []"
  by (subst range_loop.simps) simp

lemma range_loop_emit:
  "index \<le> count \<Longrightarrow> js_gt r (Num 0) \<Longrightarrow> js_seq (js_rem r n) (Num 0) \<Longrightarrow>
   range_loop index count r n = Num index # range_loop (index + 1) count (Num 1) n"
  by (subst range_loop.simps) simp

lemma range_loop_skip:
  "index \<le> count \<Longrightarrow> \<not> (js_gt r (Num 0) \<and> js_seq (js_rem r n) (Num 0)) \<Longrightarrow>
   range_loop index count r n = range_loop (index + 1) count (js_inc r) n"
  by (subst range_loop.simps) auto

text \<open>
  With the counter at \<open>k\<close> between 1 and the step \<open>n\<close>, the loop emits the indices \<open>x\<close>
  at which the counter, \<open>k + (x - i)\<close> if never reset, reaches a multiple of \<open>n\<close>.
\<close>

lemma range_loop_counter:
  "1 \<le> k \<Longrightarrow> k \<le> n \<Longrightarrow>
   range_loop i hi (Num k) (Num n) = map Num (filter (\<lambda>x. (x - i + k) mod n = 0) [i..hi])"
proof (induction "nat (hi + 1 - i)" arbitrary: i k)
  case 0
  then have "\<not> i \<le> hi" by simp
  then show ?case by (simp add: range_loop_done)
next
  case (Suc m)
  then have le: "i \<le> hi" and m: "m = nat (hi + 1 - (i + 1))" by simp_all
  have up: "[i..hi] = i # [i + 1..hi]"
    using le by (simp add: upto_rec1)
  have pos: "0 < k" "0 < n" using Suc.prems by simp_all
  show ?case
  proof (cases "k = n")
    case True
    have shift: "\<And>x. x - (i + 1) + 1 = x - i" by simp
    have rest: "range_loop (i + 1) hi (Num 1) (Num n)
            = map Num (filter (\<lambda>x. (x - i) mod n = 0) [i + 1..hi])"
      using Suc.hyps(1)[OF m, of 1] pos by (simp add: shift)
    have "range_loop i hi (Num k) (Num n) = Num i # range_loop (i + 1) hi (Num 1) (Num n)"
      using le True pos by (intro range_loop_emit) (simp_all add: js_gt_def int_rem_def)
    then show ?thesis
      using rest True pos by (simp add: up)
  next
    case False
    then have kn: "k < n" using Suc.prems by simp
    have nz: "k mod n \<noteq> 0" using kn pos by simp
    have shift: "\<And>x. x - (i + 1) + (k + 1) = x - i + k" by simp
    have rest: "range_loop (i + 1) hi (Num (k + 1)) (Num n)
            = map Num (filter (\<lambda>x. (x - i + k) mod n = 0) [i + 1..hi])"
      using Suc.hyps(1)[OF m, of "k + 1"] kn pos by (simp add: shift)
    have "range_loop i hi (Num k) (Num n) = range_loop (i + 1) hi (js_inc (Num k)) (Num n)"
      using le kn nz pos by (intro range_loop_skip) (simp_all add: js_gt_def int_rem_def)
    then show ?thesis
      using rest nz by (simp add: up)
  qed
qed

text \<open>
  A step too large for a double is \<open>Infinity\<close>: \<open>Infinity % Infinity\<close> is \<open>NaN\<close> and the
  loop pushes nothing.
\<close>

lemma range_loop_infinite_step: "range_loop lo hi PInf PInf = []"
proof (induction "nat (hi + 1 - lo)" arbitrary: lo)
  case 0
  then show ?case by (simp add: range_loop_done)
next
  case (Suc m)
  then have le: "lo \<le> hi" and m: "m = nat (hi + 1 - (lo + 1))" by simp_all
  have "range_loop lo hi PInf PInf = range_loop (lo + 1) hi (js_inc PInf) PInf"
    using le by (intro range_loop_skip) simp_all
  then show ?case using Suc.hyps(1)[OF m] by simp
qed

text \<open>
  The bounds that pass the checks of \<open>parseRange\<close> are finite integers, so its last case
  is never taken.
\<close>

lemma range_bounds_finite:
  assumes "\<not> safeIsNaN mn" "\<not> safeIsNaN mx" "\<not> js_lt mn (Num c0)" "\<not> js_gt mx (Num c1)"
    "\<not> js_ge mn mx"
  shows "\<exists>lo hi. mn = Num lo \<and> mx = Num hi \<and> c0 \<le> lo \<and> lo < hi \<and> hi \<le> c1"
  using assms by (cases mn; cases mx) (auto simp: safeIsNaN_def js_gt_def js_ge_def)

text \<open>
  A range text whose bounds read as the integers \<open>a < b\<close> within the constraints, with a
  step that reads as the integer \<open>n > 0\<close>: the counter starts at \<open>n\<close>, so the first index
  is pushed and then every \<open>n\<close>-th one.
\<close>

lemma parseRange_range_step:
  assumes "split (CHR ''-'') val = sa # sb # rest" and "sa \<noteq> []"
    and "toNumber sa = Num a" and "toNumber sb = Num b" and "interval_number ri = Num n"
    and "fst cs \<le> a" and "b \<le> snd cs" and "a < b" and "0 < n"
  shows "parseRange cs val ri = Inr (Arr (map Num (filter (\<lambda>x. (x - a) mod n = 0) [a..b])))"
proof -
  have loop: "range_loop a b (Num n) (Num n) = map Num (filter (\<lambda>x. (x - a) mod n = 0) [a..b])"
    using range_loop_counter[of n n a b] assms(9) by simp
  show ?thesis
    using assms loop
    by (simp add: parseRange_def Let_def safeIsNaN_def js_gt_def js_ge_def)
qed

section \<open>Scalars and stepped scalars\<close>

lemma split_no_separator: "c \<notin> set s \<Longrightarrow> split c s = [s]"
  by (induction s) auto

lemma split_append_separator: "c \<notin> set a \<Longrightarrow> split c (a @ c # b) = a # split c b"
  by (induction a) auto

lemma replace_aliases_no_letter:
  "list_all (\<lambda>c. \<not> is_alpha c) s \<Longrightarrow> replace_aliases table s = Inr s"
  by (induction s) auto

lemma digit_not_alpha: "is_digit c \<Longrightarrow> \<not> is_alpha c"
  by (auto simp: is_digit_def is_alpha_def)

lemma digit_valid_char: "is_digit c \<Longrightarrow> valid_char c"
  by (auto simp: is_digit_def valid_char_def)

lemma separators_not_digit:
  "\<not> is_digit (CHR ''/'')" "\<not> is_digit (CHR '','')" "\<not> is_digit (CHR ''-'')"
  "\<not> is_digit (CHR ''*'')"
  by (simp_all add: is_digit_def)

lemma slash_facts: "\<not> is_alpha (CHR ''/'')" "valid_char (CHR ''/'')"
  by (simp_all add: is_alpha_def valid_char_def)

lemma digits_no_char:
  assumes "list_all is_digit s"
  shows "CHR ''/'' \<notin> set s" "CHR '','' \<notin> set s" "CHR ''-'' \<notin> set s" "CHR ''*'' \<notin> set s"
  using assms separators_not_digit unfolding list_all_iff by blast+

lemma digits_valid_chars: "list_all is_digit s \<Longrightarrow> list_all valid_char s"
  by (induction s) (simp_all add: digit_valid_char)

lemma digits_no_letter: "list_all is_digit s \<Longrightarrow> list_all (\<lambda>c. \<not> is_alpha c) s"
  by (induction s) (simp_all add: digit_not_alpha)

lemma int_rem_nonneg: "0 \<le> a \<Longrightarrow> int_rem a b = a mod \<bar>b\<bar>"
  by (cases "a = 0") (simp_all add: int_rem_def)

lemma parseRange_scalar_text:
  "CHR ''-'' \<notin> set sa \<Longrightarrow> parseRange cs sa ri = Inr (Scalar (toNumber sa))"
  by (simp add: parseRange_def split_no_separator)

lemma parseSequence_single_atom:
  "CHR '','' \<notin> set v \<Longrightarrow>
   parseSequence fld cs v =
     (case parseRepeat cs v of Inl e \<Rightarrow> Inl e | Inr r \<Rightarrow> handleResult fld cs [] r)"
  by (simp add: parseSequence_def split_no_separator)

lemma parseField_plain:
  assumes "replace_aliases (aliases fld) v = Inr v" "valid_characters v" "CHR ''*'' \<notin> set v"
  shows "parseField fld v cs = parseSequence fld cs v"
  using assms by (simp add: parseField_def)

lemma parseField_scalar_text:
  assumes "sa \<noteq> []" "list_all is_digit sa"
  shows "parseField fld sa cs = handleResult fld cs [] (Scalar (toNumber sa))"
proof -
  note nc = digits_no_char[OF assms(2)]
  have al: "replace_aliases (aliases fld) sa = Inr sa"
    using assms(2) by (simp add: replace_aliases_no_letter digits_no_letter)
  have v: "valid_characters sa"
    using assms by (simp add: valid_characters_def digits_valid_chars)
  have rep: "parseRepeat cs sa = Inr (Scalar (toNumber sa))"
    using nc(1) nc(3) by (simp add: parseRepeat_def split_no_separator parseRange_scalar_text)
  have "parseField fld sa cs = parseSequence fld cs sa"
    using al v nc(4) by (rule parseField_plain)
  then show ?thesis
    using rep nc(2) by (simp add: parseSequence_single_atom)
qed

lemma parseField_stepped_scalar_text:
  assumes "sa \<noteq> []" "list_all is_digit sa" "list_all is_digit sn"
  shows "parseField fld (sa @ CHR ''/'' # sn) cs = handleResult fld cs [] (Scalar (toNumber sa))"
proof -
  let ?v = "sa @ CHR ''/'' # sn"
  note na = digits_no_char[OF assms(2)]
  note nn = digits_no_char[OF assms(3)]
  have "list_all (\<lambda>c. \<not> is_alpha c) ?v"
    using digits_no_letter[OF assms(2)] digits_no_letter[OF assms(3)] slash_facts(1) by simp
  then have al: "replace_aliases (aliases fld) ?v = Inr ?v"
    by (rule replace_aliases_no_letter)
  have v: "valid_characters ?v"
    using digits_valid_chars[OF assms(2)] digits_valid_chars[OF assms(3)] slash_facts(2)
    by (simp add: valid_characters_def)
  have sp: "split (CHR ''/'') ?v = [sa, sn]"
    using na(1) nn(1) by (simp add: split_append_separator split_no_separator)
  have rep: "parseRepeat cs ?v = Inr (Scalar (toNumber sa))"
    using sp na(3) by (simp add: parseRepeat_def parseRange_scalar_text)
  have nocomma: "CHR '','' \<notin> set ?v" and nostar: "CHR ''*'' \<notin> set ?v"
    using na(2) nn(2) na(4) nn(4) by simp_all
  have "parseField fld ?v cs = parseSequence fld cs ?v"
    using al v nostar by (rule parseField_plain)
  then show ?thesis
    using rep nocomma by (simp add: parseSequence_single_atom)
qed

lemma digit_val_nonneg: "is_digit c \<Longrightarrow> 0 \<le> digit_val c"
  by (auto simp: is_digit_def digit_val_def)

lemma dec_val_nonneg: "list_all is_digit s \<Longrightarrow> 0 \<le> acc \<Longrightarrow> 0 \<le> dec_val acc s"
  by (induction s arbitrary: acc) (simp_all add: digit_val_nonneg)

lemma toNumber_digits_nonneg:
  assumes "list_all is_digit s" "toNumber s = Num a"
  shows "0 \<le> a"
proof (cases "s = []")
  case True
  then show ?thesis using assms by (simp add: toNumber_def)
next
  case False
  then have "num_of_digits s = Num a"
    using assms by (simp add: toNumber_def)
  then have "a = dec_val 0 s"
    by (simp add: num_of_digits_def Let_def split: if_splits)
  then show ?thesis
    using dec_val_nonneg[OF assms(1), of 0] by simp
qed

text \<open>
  Claim C3, as amended. For a scalar text \<open>sa\<close> (digits, reading as \<open>a\<close> within the
  constraints) and any step text \<open>sn\<close> of digits, the atom \<open>sa/sn\<close> compiles to what the
  scalar \<open>sa\<close> alone compiles to, the one value \<open>a\<close> (\<open>a mod 7\<close> for dayOfWeek): the text
  before the \<open>/\<close> holds no \<open>-\<close>, so \<open>parseRange\<close> returns it as a number and the step is
  never read.
\<close>

theorem C3_step_ignored:
  assumes "sa \<noteq> []" and "list_all is_digit sa" and "list_all is_digit sn"
    and "toNumber sa = Num a" and "fst cs \<le> a" and "a \<le> snd cs"
  shows "parseField fld (sa @ CHR ''/'' # sn) cs = parseField fld sa cs \<and>
         parseField fld sa cs = Inr [Num (if fld = DayOfWeek then a mod 7 else a)]"
proof -
  have nn: "0 \<le> a" using assms(2,4) by (rule toNumber_digits_nonneg)
  have "handleResult fld cs [] (Scalar (toNumber sa))
          = Inr [Num (if fld = DayOfWeek then a mod 7 else a)]"
    using assms(4-6) nn by (simp add: handleResult_def js_gt_def int_rem_nonneg)
  then show ?thesis
    using parseField_scalar_text[OF assms(1,2)] parseField_stepped_scalar_text[OF assms(1-3)]
    by simp
qed

text \<open>The theorem at \<open>5/10\<close> in the minute field.\<close>

theorem C3_step_ignored_witness:
  "parseField Minute ''5/10'' (0, 59) = parseField Minute ''5'' (0, 59) \<and>
   parseField Minute ''5'' (0, 59) = Inr [Num 5]"
proof -
  have h: "''5'' \<noteq> []" "list_all is_digit ''5''" "list_all is_digit ''10''"
    "toNumber ''5'' = Num 5" "fst (0, 59) \<le> (5 :: int)" "(5 :: int) \<le> snd (0, 59)"
    by (simp_all add: toNumber_def is_digit_def num_of_digits_def digit_val_def double_overflow_def)
  from C3_step_ignored[OF h, of Minute] show ?thesis by simp
qed

text \<open>
  Claim C3 as the specification states it fails: in the minute field \<open>5/10\<close> compiles to
  the single value 5, the range \<open>5-59/10\<close> to 5, 15, 25, 35, 45, 55.
\<close>

theorem C3_counterexample:
  "parseField Minute ''5/10'' (0, 59) \<noteq> parseField Minute ''5-59/10'' (0, 59)"
  by code_simp


section \<open>Stepped ranges\<close>

text \<open>
  The array branch of \<open>handleResult\<close> keeps an ascending array of values within the
  constraints as it is: each value exceeds the running maximum.
\<close>

lemma math_max_Num: "xs \<noteq> [] \<Longrightarrow> math_max (map Num xs) = Num (Max (set xs))"
proof (induction xs)
  case Nil
  then show ?case by simp
next
  case (Cons x xs)
  show ?case
  proof (cases "xs = []")
    case True
    then show ?thesis by simp
  next
    case False
    then have "math_max (map Num xs) = Num (Max (set xs))" by (rule Cons.IH)
    then show ?thesis using False by (auto simp: max_def)
  qed
qed

lemma math_max_snoc:
  assumes "\<forall>x\<in>set st. x < y"
  shows "math_max (map Num (st @ [y])) = Num y"
proof -
  have "Max (set (st @ [y])) = y"
    using assms by (intro Max_eqI) (auto simp: less_imp_le)
  then show ?thesis
    using math_max_Num[of "st @ [y]"] by simp
qed

lemma handleArray_ascending:
  assumes "sorted_wrt (<) ys" and "\<forall>y\<in>set ys. fst cs \<le> y \<and> y \<le> snd cs"
    and "\<forall>y\<in>set ys. js_gt (Num y) maxv" and "\<forall>x\<in>set st. \<forall>y\<in>set ys. x < y"
  shows "handleArray cs (map Num st) maxv (map Num ys) = Inr (map Num (st @ ys))"
  using assms
proof (induction ys arbitrary: st maxv)
  case Nil
  then show ?case by simp
next
  case (Cons y ys)
  have mx: "math_max (map Num (st @ [y])) = Num y"
    using Cons.prems(4) by (intro math_max_snoc) simp
  have step: "handleArray cs (map Num st) maxv (map Num (y # ys))
                = handleArray cs (map Num (st @ [y])) (Num y) (map Num ys)"
    using Cons.prems(2,3) mx by (simp add: js_gt_def)
  have "handleArray cs (map Num (st @ [y])) (Num y) (map Num ys) = Inr (map Num ((st @ [y]) @ ys))"
  proof (rule Cons.IH)
    show "sorted_wrt (<) ys" using Cons.prems(1) by simp
    show "\<forall>z\<in>set ys. fst cs \<le> z \<and> z \<le> snd cs" using Cons.prems(2) by simp
    show "\<forall>z\<in>set ys. js_gt (Num z) (Num y)" using Cons.prems(1) by (simp add: js_gt_def)
    show "\<forall>x\<in>set (st @ [y]). \<forall>z\<in>set ys. x < z" using Cons.prems(1,4) by auto
  qed
  then show ?case using step by simp
qed

lemma handleResult_ascending:
  assumes "sorted_wrt (<) ys" and "\<forall>y\<in>set ys. fst cs \<le> y \<and> y \<le> snd cs"
    and "\<forall>y\<in>set ys. 0 \<le> y"
  shows "handleResult fld cs [] (Arr (map Num ys)) = Inr (map Num ys)"
proof -
  have "\<forall>y\<in>set ys. js_gt (Num y) (Num (- 1))"
    using assms(3) by (auto simp: js_gt_def)
  then have "handleArray cs (map Num []) (Num (- 1)) (map Num ys) = Inr (map Num ([] @ ys))"
    using assms(1,2) by (intro handleArray_ascending) simp_all
  then show ?thesis by (simp add: handleResult_def)
qed

lemma sorted_wrt_filter_upto: "sorted_wrt (<) (filter P [a..b])"
  by (rule sorted_wrt_filter) (simp add: sorted_wrt_upto)

lemma minus_facts: "\<not> is_alpha (CHR ''-'')" "valid_char (CHR ''-'')"
  by (simp_all add: is_alpha_def valid_char_def)

lemma parseField_stepped_range:
  assumes "sa \<noteq> []" and "list_all is_digit sa" and "list_all is_digit sb"
    and "list_all is_digit sn"
    and "toNumber sa = Num a" and "toNumber sb = Num b" and "toNumber sn = Num n"
    and "fst cs \<le> a" and "b \<le> snd cs" and "a < b" and "0 < n"
  shows "parseField fld (sa @ CHR ''-'' # sb @ CHR ''/'' # sn) cs =
           Inr (map Num (filter (\<lambda>x. (x - a) mod n = 0) [a..b]))"
proof -
  let ?r = "sa @ CHR ''-'' # sb"
  let ?v = "?r @ CHR ''/'' # sn"
  let ?ys = "filter (\<lambda>x. (x - a) mod n = 0) [a..b]"
  note na = digits_no_char[OF assms(2)]
  note nb = digits_no_char[OF assms(3)]
  note nn = digits_no_char[OF assms(4)]
  have "list_all (\<lambda>c. \<not> is_alpha c) ?v"
    using digits_no_letter[OF assms(2)] digits_no_letter[OF assms(3)]
      digits_no_letter[OF assms(4)] slash_facts(1) minus_facts(1) by simp
  then have al: "replace_aliases (aliases fld) ?v = Inr ?v"
    by (rule replace_aliases_no_letter)
  have v: "valid_characters ?v"
    using digits_valid_chars[OF assms(2)] digits_valid_chars[OF assms(3)]
      digits_valid_chars[OF assms(4)] slash_facts(2) minus_facts(2)
    by (simp add: valid_characters_def)
  have nocomma: "CHR '','' \<notin> set ?v" and nostar: "CHR ''*'' \<notin> set ?v"
    using na(2) nb(2) nn(2) na(4) nb(4) nn(4) by simp_all
  have "CHR ''/'' \<notin> set ?r"
    using na(1) nb(1) by simp
  then have "split (CHR ''/'') ?v = ?r # split (CHR ''/'') sn"
    by (rule split_append_separator)
  then have sp: "split (CHR ''/'') ?v = [?r, sn]"
    by (simp only: split_no_separator[OF nn(1)])
  have "split (CHR ''-'') ?r = sa # split (CHR ''-'') sb"
    using na(3) by (rule split_append_separator)
  then have spr: "split (CHR ''-'') ?r = sa # sb # []"
    by (simp only: split_no_separator[OF nb(3)])
  have "parseRange cs ?r (IStr sn) = Inr (Arr (map Num ?ys))"
    using spr assms(1) assms(5,6) _ assms(8-11)
    by (rule parseRange_range_step) (simp add: assms(7))
  then have rep: "parseRepeat cs ?v = Inr (Arr (map Num ?ys))"
    using sp by (simp add: parseRepeat_def)
  have nonneg: "0 \<le> a"
    using assms(2,5) by (rule toNumber_digits_nonneg)
  have "handleResult fld cs [] (Arr (map Num ?ys)) = Inr (map Num ?ys)"
  proof (rule handleResult_ascending)
    show "sorted_wrt (<) ?ys" by (rule sorted_wrt_filter_upto)
    show "\<forall>y\<in>set ?ys. fst cs \<le> y \<and> y \<le> snd cs" using assms(8,9) by auto
    show "\<forall>y\<in>set ?ys. 0 \<le> y" using nonneg by auto
  qed
  moreover have "parseField fld ?v cs = parseSequence fld cs ?v"
    using al v nostar by (rule parseField_plain)
  ultimately show ?thesis
    using rep nocomma by (simp add: parseSequence_single_atom)
qed

text \<open>
  Claim C2, as amended. For bounds \<open>sa\<close>, \<open>sb\<close> and a step \<open>sn\<close> written in digits that
  read as the integers \<open>a < b\<close> within the constraints and \<open>n > 0\<close>, \<open>parseRange\<close> on the
  range \<open>sa-sb\<close> with step \<open>sn\<close> returns the indices \<open>a, a + n, a + 2n, ...\<close> up to \<open>b\<close>,
  and \<open>sa-sb/sn\<close> compiles to exactly these values: the counter of the loop starts at
  the step, not at 1, so the first index is emitted and then every \<open>n\<close>-th one.
\<close>

theorem C2_range_step:
  assumes "sa \<noteq> []" and "list_all is_digit sa" and "list_all is_digit sb"
    and "list_all is_digit sn"
    and "toNumber sa = Num a" and "toNumber sb = Num b" and "toNumber sn = Num n"
    and "fst cs \<le> a" and "b \<le> snd cs" and "a < b" and "0 < n"
  shows "parseRange cs (sa @ CHR ''-'' # sb) (IStr sn) =
           Inr (Arr (map Num (filter (\<lambda>x. (x - a) mod n = 0) [a..b]))) \<and>
         parseField fld (sa @ CHR ''-'' # sb @ CHR ''/'' # sn) cs =
           Inr (map Num (filter (\<lambda>x. (x - a) mod n = 0) [a..b]))"
proof -
  have "split (CHR ''-'') (sa @ CHR ''-'' # sb) = sa # split (CHR ''-'') sb"
    using digits_no_char(3)[OF assms(2)] by (rule split_append_separator)
  then have "split (CHR ''-'') (sa @ CHR ''-'' # sb) = sa # sb # []"
    by (simp only: split_no_separator[OF digits_no_char(3)[OF assms(3)]])
  then have "parseRange cs (sa @ CHR ''-'' # sb) (IStr sn) =
           Inr (Arr (map Num (filter (\<lambda>x. (x - a) mod n = 0) [a..b])))"
    using assms(1) assms(5,6) _ assms(8-11)
    by (rule parseRange_range_step) (simp add: assms(7))
  then show ?thesis
    using parseField_stepped_range[OF assms] by simp
qed

text \<open>The theorem at the range \<open>0-9\<close> with step 3 in the minute field.\<close>

theorem C2_range_step_witness:
  "parseRange (0, 59) ''0-9'' (IStr ''3'') = Inr (Arr [Num 0, Num 3, Num 6, Num 9]) \<and>
   parseField Minute ''0-9/3'' (0, 59) = Inr [Num 0, Num 3, Num 6, Num 9]"
proof -
  have h: "''0'' \<noteq> []" "list_all is_digit ''0''" "list_all is_digit ''9''"
    "list_all is_digit ''3''" "toNumber ''0'' = Num 0" "toNumber ''9'' = Num 9"
    "toNumber ''3'' = Num 3" "fst (0, 59) \<le> (0 :: int)" "(9 :: int) \<le> snd (0, 59)"
    "(0 :: int) < 9" "(0 :: int) < 3"
    by (simp_all add: toNumber_def is_digit_def num_of_digits_def digit_val_def double_overflow_def)
  from C2_range_step[OF h, of Minute] show ?thesis by (simp add: upto_rec1)
qed

text \<open>
  Claim C2 as the specification states it fails: for the range \<open>0-9\<close> with step 3 the
  specification's walk gives 2, 5, 8, the field parser gives 0, 3, 6, 9.
\<close>

theorem C2_counterexample:
  "spec_walk 0 9 1 3 = [2, 5, 8] \<and>
   parseField Minute ''0-9/3'' (0, 59) = Inr [Num 0, Num 3, Num 6, Num 9] \<and>
   parseField Minute ''0-9/3'' (0, 59) \<noteq> Inr (map Num (spec_walk 0 9 1 3))"
  by code_simp


section \<open>Compiled sets\<close>

text \<open>
  Claim C1. The scalar branch of \<open>handleResult\<close> pushes its value without comparing it
  with the running maximum, so the result need not be ascending or free of duplicates:
  in the dayOfWeek field \<open>1,7\<close> gives 1 followed by 0 (7 folded), and in the minute field
  \<open>1,1\<close> gives 1 twice.
\<close>

theorem C1_scalar_pushed_unchecked:
  "parseField DayOfWeek ''1,7'' (0, 7) = Inr [Num 1, Num 0] \<and>
   parseField Minute ''1,1'' (0, 59) = Inr [Num 1, Num 1]"
  by code_simp


section \<open>Aliases\<close>

lemma alias_callback_returns: "alias_callback table m = Inr (alias_lookup table (toLowerCase m))"
  by (simp add: alias_callback_def)

text \<open>The alias stage never throws: an unknown name is replaced by the text \<open>undefined\<close>.\<close>

lemma replace_aliases_returns: "\<exists>s. replace_aliases table v = Inr s"
proof (induction table v rule: replace_aliases.induct)
  case (1 table)
  then show ?case by simp
next
  case (2 table c cs)
  then show ?case by (auto simp: alias_callback_returns)
qed

text \<open>
  Claim C9. Compiling \<open>foo\<close> as a month field does not fail with the alias error: the
  callback's test never fails, \<open>foo\<close> becomes \<open>undefined\<close>, and the character check
  rejects that text.
\<close>

theorem C9_unknown_alias:
  "parseField Month ''foo'' (1, 12) = Inl (InvalidCharacters ''undefined'')"
  by code_simp


section \<open>Predefined expressions\<close>

lemma parse_examples:
  "parse ''30 4 1,15 * 5'' = Inr posix_example"
  "parse ''0 0 0 31 2 *'' = Inr february_31"
  "parse ''0 0 0 31 4 *'' = Inr april_31"
  by code_simp+

text \<open>
  Claim C4, as amended. \<open>@hourly\<close> stands for the five fields \<open>0 * * * *\<close>; the missing
  first field, the seconds, defaults to \<open>*\<close>. So \<open>@hourly\<close> compiles to what the six
  fields \<open>* 0 * * * *\<close> compile to: every second, minute 0.
\<close>

theorem C4_hourly:
  "parse ''@hourly'' = parse ''* 0 * * * *'' \<and>
   map_sum id second (parse ''@hourly'') = Inr (map Num [0..59]) \<and>
   map_sum id minute (parse ''@hourly'') = Inr [Num 0]"
  by code_simp

text \<open>
  Claim C4 as the specification states it fails: \<open>0 * * * * *\<close> has second 0 and every
  minute.
\<close>

theorem C4_counterexample: "parse ''@hourly'' \<noteq> parse ''0 * * * * *''"
  by code_simp


section \<open>Matching a value against a compiled set\<close>

lemma matchLoop_sorted:
  "sorted xs \<Longrightarrow>
   matchLoop v (map Num xs) =
     (if \<exists>x\<in>set xs. v \<le> x then Some (Min {x \<in> set xs. v \<le> x} = v) else None)"
proof (induction xs)
  case Nil
  then show ?case by simp
next
  case (Cons x xs)
  show ?case
  proof (cases "v \<le> x")
    case True
    have "Min {y \<in> set (x # xs). v \<le> y} = x"
      using Cons.prems True by (intro Min_eqI) auto
    then show ?thesis using True by (auto simp: js_ge_def)
  next
    case False
    then have same: "{y \<in> set (x # xs). v \<le> y} = {y \<in> set xs. v \<le> y}" by auto
    have ex: "(\<exists>y\<in>set (x # xs). v \<le> y) = (\<exists>y\<in>set xs. v \<le> y)"
      using False by auto
    have ml: "matchLoop v (map Num (x # xs)) = matchLoop v (map Num xs)"
      using False by (simp add: js_ge_def)
    have "sorted xs" using Cons.prems by simp
    then show ?thesis by (simp only: ml ex same Cons.IH)
  qed
qed

lemma matchSchedule_sorted:
  assumes "sorted xs"
  shows "matchSchedule v (map Num xs) =
     (if \<exists>x\<in>set xs. v \<le> x then Min {x \<in> set xs. v \<le> x} = v else (xs \<noteq> [] \<and> hd xs = v))"
  using matchLoop_sorted[OF assms, of v]
  by (cases xs) (auto simp: matchSchedule_def js_index_def)

text \<open>
  Claim C7. For an integer \<open>v\<close> and a sorted set \<open>xs\<close> of integers, \<open>matchSchedule\<close>
  answers whether the smallest element that is at least \<open>v\<close> equals \<open>v\<close>; when no
  element is at least \<open>v\<close> it answers whether the first element equals \<open>v\<close>.
\<close>

theorem C7_matchSchedule:
  assumes "sorted xs"
  shows "matchSchedule v (map Num xs) =
     (if \<exists>x\<in>set xs. v \<le> x then Min {x \<in> set xs. v \<le> x} = v else (xs \<noteq> [] \<and> hd xs = v))"
  using assms by (rule matchSchedule_sorted)

text \<open>The theorem at the set 1, 15 and the values 2, 15 and 16.\<close>

theorem C7_matchSchedule_witness:
  "sorted [1, 15 :: int] \<and> \<not> matchSchedule 2 (map Num [1, 15]) \<and>
   matchSchedule 15 (map Num [1, 15]) \<and> \<not> matchSchedule 16 (map Num [1, 15])"
proof -
  have m: "Min {x \<in> set [1, 15 :: int]. 2 \<le> x} = 15" "Min {x \<in> set [1, 15 :: int]. 15 \<le> x} = 15"
    by (rule Min_eqI; auto)+
  have s: "sorted [1, 15 :: int]" by simp
  show ?thesis
    using s C7_matchSchedule[OF s, of 2] C7_matchSchedule[OF s, of 15]
      C7_matchSchedule[OF s, of 16] m
    by auto
qed

lemma matchSchedule_upto:
  assumes "lo \<le> v" "v \<le> hi"
  shows "matchSchedule v (map Num [lo..hi])"
proof -
  have "Min {x \<in> set [lo..hi]. v \<le> x} = v"
  proof (rule Min_eqI)
    show "finite {x \<in> set [lo..hi]. v \<le> x}"
      by (rule finite_subset[of _ "set [lo..hi]"]) auto
  qed (use assms in auto)
  moreover have "\<exists>x\<in>set [lo..hi]. v \<le> x"
    using assms by auto
  ultimately show ?thesis
    using matchSchedule_sorted[of "[lo..hi]" v] by simp
qed

lemma matchSchedule_single: "matchSchedule v [Num a] = (v = a)"
  by (auto simp: matchSchedule_def js_ge_def js_index_def)

lemma matchSchedule_first_fifteenth: "matchSchedule v [Num 1, Num 15] = (v = 1 \<or> v = 15)"
  by (auto simp: matchSchedule_def js_ge_def js_index_def)


section \<open>Wildcard ranges\<close>

text \<open>
  Claim C6, as amended. \<open>isWildcardRange\<close> holds exactly when the set is not empty and
  its length is the constraint maximum, plus 1 when the constraint minimum is below 1;
  the minimum is not subtracted.
\<close>

theorem C6_isWildcardRange:
  "isWildcardRange S [cmin, cmax] =
     (S \<noteq> [] \<and> int (length S) = cmax + (if cmin < 1 then 1 else 0))"
  by (simp add: isWildcardRange_def)

text \<open>The theorem at the constraints of dayOfMonth and of dayOfWeek.\<close>

theorem C6_isWildcardRange_witness:
  "isWildcardRange (map Num [1..31]) [1, 31] \<and> \<not> isWildcardRange (map Num [1..30]) [1, 31] \<and>
   isWildcardRange (map Num [0..7]) [0, 7]"
  using C6_isWildcardRange[of "map Num [1..31]" 1 31] C6_isWildcardRange[of "map Num [1..30]" 1 31]
    C6_isWildcardRange[of "map Num [0..7]" 0 7]
  by simp

text \<open>
  Claim C6 as the specification states it fails: the 31 days of a month are a wildcard
  range for the constraints 1 to 31, and \<open>max - min\<close> is 30.
\<close>

theorem C6_counterexample:
  "isWildcardRange (map Num [1..31]) [1, 31] \<and> \<not> spec_isWildcardSpan (map Num [1..31]) (1, 31)"
  by (simp add: isWildcardRange_def spec_isWildcardSpan_def)


section \<open>The check of the days in the month\<close>

lemma int_rem_eq_0_iff: "(int_rem a b = 0) = (a mod b = 0)"
proof -
  have "(\<bar>a\<bar> mod \<bar>b\<bar> = 0) = (a mod b = 0)"
    by (simp add: mod_eq_0_iff_dvd)
  then show ?thesis
    by (auto simp: int_rem_def sgn_if)
qed

lemma isLeap_leap_year: "isLeap y = leap_year y"
proof -
  have "y mod 400 = 0 \<Longrightarrow> y mod 100 = 0" "y mod 100 = 0 \<Longrightarrow> y mod 4 = 0"
    by presburger+
  then show ?thesis
    by (auto simp: isLeap_def leap_year_def truthy_def int_rem_eq_0_iff)
qed

lemma js_index_first: "js_index xs 0 = (if xs = [] then None else Some (hd xs))"
  by (cases xs) (simp_all add: js_index_def)

lemma js_index_last:
  "js_index xs (int (length xs) - 1) = (if xs = [] then None else Some (last xs))"
proof (cases "xs = []")
  case True
  then show ?thesis by (simp add: js_index_def)
next
  case False
  then have "nat (int (length xs) - 1) = length xs - 1" by simp
  then show ?thesis using False by (simp add: js_index_def last_conv_nth)
qed

lemma js_seq_Num: "js_seq m (Num k) = (m = Num k)"
  by (cases m) auto

lemma month_constraint: "constraint_array (constraints ! 4) = [1, 12]"
  by (simp add: constraint_array_def constraints_def)

lemma if_Inl_eq_Inl: "((if c then Inl a else x) = Inl e) = (if c then a = e else x = Inl e)"
  by simp

lemma if_Inr_eq_Inl: "((if c then Inr a else x) = Inl e) = (\<not> c \<and> x = Inl e)"
  by simp

lemma test_raises_iff:
  "(test f d = Inl e) =
     (e = InvalidExplicitDayOfMonth \<and> \<not> isWildcardRange (month f) [1, 12] \<and> invalidExplicitDay f d)"
proof -
  have "(test f d = Inl e) =
          (if \<not> isWildcardRange (month f) [1, 12] \<and> invalidExplicitDay f d
           then InvalidExplicitDayOfMonth = e else False)"
    unfolding test_def Let_def month_constraint
    by (simp only: if_Inl_eq_Inl if_Inr_eq_Inl sum.distinct simp_thms)
  then show ?thesis by auto
qed

lemma test_returns_iff:
  "(\<exists>b. test f d = Inr b) = (\<not> (\<not> isWildcardRange (month f) [1, 12] \<and> invalidExplicitDay f d))"
proof -
  have "(\<exists>b. test f d = Inr b) = (\<not> (\<exists>e. test f d = Inl e))"
    by (cases "test f d") simp_all
  then show ?thesis by (simp add: test_raises_iff)
qed

lemma adjustedDays_leap:
  "isLeap (getFullYear d) \<Longrightarrow> adjustedDays f d = (Some (Num 29), Some (Num 29))"
  by (simp add: adjustedDays_def Let_def)

lemma adjustedDays_february:
  assumes "\<not> isLeap (getFullYear d)" "previousMonth d = 2"
  shows "adjustedDays f d =
           (Some (Num 28), if dayOfMonth f = [] then None else Some (last (dayOfMonth f)))"
proof -
  have "js_index (map Num daysInMonth) (previousMonth d - 1) = Some (Num 28)"
    using assms(2) by (simp add: js_index_def daysInMonth_def)
  then show ?thesis
    using assms(1) js_index_last[of "dayOfMonth f"] by (simp add: adjustedDays_def Let_def)
qed

lemma invalidExplicitDay_iff:
  "invalidExplicitDay f d =
     (previousMonth d = 2 \<and> \<not> leap_year (getFullYear d) \<and>
      month f \<noteq> [] \<and> hd (month f) = Num (previousMonth d) \<and>
      dayOfMonth f \<noteq> [] \<and> js_lt (Num 28) (last (dayOfMonth f)))"
proof (cases "previousMonth d = 2")
  case False
  then show ?thesis by (simp add: invalidExplicitDay_def)
next
  case feb: True
  show ?thesis
  proof (cases "isLeap (getFullYear d)")
    case True
    then show ?thesis
      using feb by (simp add: invalidExplicitDay_def adjustedDays_leap isLeap_leap_year [symmetric])
  next
    case False
    then show ?thesis
      using feb adjustedDays_february[OF False feb, of f]
      by (simp add: invalidExplicitDay_def js_index_first js_seq_Num isLeap_leap_year [symmetric])
  qed
qed

text \<open>
  Claim C5, as amended. \<open>test\<close> throws exactly when the month field is not a wildcard
  range, the month before the date's month is February, the year is not a leap year, the
  first element of the month set is that month (2), and the last element of the
  day-of-month set exceeds 28. With a wildcard month field \<open>test\<close> returns a boolean.
\<close>

theorem C5_check_fires:
  "(test f d = Inl InvalidExplicitDayOfMonth) =
     (\<not> isWildcardRange (month f) [1, 12] \<and>
      previousMonth d = 2 \<and> \<not> leap_year (getFullYear d) \<and>
      month f \<noteq> [] \<and> hd (month f) = Num (previousMonth d) \<and>
      dayOfMonth f \<noteq> [] \<and> js_lt (Num 28) (last (dayOfMonth f))) \<and>
   (isWildcardRange (month f) [1, 12] \<longrightarrow> (\<exists>b. test f d = Inr b))"
  by (simp add: test_raises_iff test_returns_iff invalidExplicitDay_iff)

text \<open>
  The theorem at the fields of \<open>0 0 0 31 2 *\<close> on 31 March 2021, where \<open>test\<close> throws, and
  at the fields of \<open>30 4 1,15 * 5\<close>, whose month field is a wildcard range.
\<close>

theorem C5_check_fires_witness:
  "test february_31 (at_midnight 2021 2 31 3) = Inl InvalidExplicitDayOfMonth \<and>
   isWildcardRange (month posix_example) [1, 12] \<and>
   (\<exists>b. test posix_example (at_midnight 2021 2 31 3) = Inr b)"
  using C5_check_fires[of february_31 "at_midnight 2021 2 31 3"]
    C5_check_fires[of posix_example "at_midnight 2021 2 31 3"]
  by (simp add: february_31_def posix_example_def at_midnight_def isWildcardRange_def
      previousMonth_def leap_year_def)

text \<open>
  Claim C5 as the specification states it fails: on 31 May 2021 with the fields of
  \<open>0 0 0 31 4 *\<close> the month field is not a wildcard range, its first element is April,
  the month before, and 31 exceeds the 30 days of April; \<open>test\<close> returns false and does
  not throw.
\<close>

theorem C5_counterexample:
  "\<not> isWildcardRange (month april_31) [1, 12] \<and>
   spec_check_fires april_31 (at_midnight 2021 4 31 1) \<and>
   test april_31 (at_midnight 2021 4 31 1) = Inr False"
  by code_simp

text \<open>
  Claim C10. In a leap year both operands of the comparison are 29, so \<open>test\<close> does not
  throw and returns a boolean, whatever the fields and the rest of the date.
\<close>

theorem C10_leap_year:
  assumes "leap_year (getFullYear d)"
  shows "adjustedDays f d = (Some (Num 29), Some (Num 29)) \<and>
         test f d \<noteq> Inl InvalidExplicitDayOfMonth \<and> (\<exists>b. test f d = Inr b)"
  using assms
  by (simp add: adjustedDays_leap isLeap_leap_year test_raises_iff test_returns_iff
      invalidExplicitDay_iff)

text \<open>The theorem on 31 March 2020 with the fields of \<open>0 0 0 31 2 *\<close>.\<close>

theorem C10_leap_year_witness:
  "leap_year 2020 \<and>
   adjustedDays february_31 (at_midnight 2020 2 31 2) = (Some (Num 29), Some (Num 29)) \<and>
   test february_31 (at_midnight 2020 2 31 2) = Inr False"
proof -
  have l: "leap_year (getFullYear (at_midnight 2020 2 31 2))"
    by (simp add: leap_year_def at_midnight_def)
  have "test february_31 (at_midnight 2020 2 31 2) = Inr False"
    by code_simp
  then show ?thesis
    using l C10_leap_year[OF l, of february_31] by (simp add: at_midnight_def)
qed


section \<open>Day of month or day of week\<close>

lemma posix_example_wildcards:
  "\<not> isWildcardRange (dayOfMonth posix_example) (constraint_array (constraints ! 3))"
  "isWildcardRange (month posix_example) (constraint_array (constraints ! 4))"
  "\<not> isWildcardRange (dayOfWeek posix_example) (constraint_array (constraints ! 5))"
  by (simp_all add: posix_example_def isWildcardRange_def constraint_array_def constraints_def)

lemma posix_example_test:
  assumes "0 \<le> getMonth d" "getMonth d \<le> 11" "getHours d = 4" "getMinutes d = 30"
    "0 \<le> getSeconds d" "getSeconds d \<le> 59"
  shows "test posix_example d = Inr (getDate d = 1 \<or> getDate d = 15 \<or> getDay d = 5)"
proof -
  have mo: "matchSchedule (getMonth d + 1) (month posix_example)"
    using assms(1,2) by (simp add: posix_example_def matchSchedule_upto)
  have se: "matchSchedule (getSeconds d) (second posix_example)"
    using assms(5,6) by (simp add: posix_example_def matchSchedule_upto)
  have hm: "matchSchedule (getHours d) (hour posix_example)"
    "matchSchedule (getMinutes d) (minute posix_example)"
    using assms(3,4) by (simp_all add: posix_example_def matchSchedule_single)
  have dm: "matchSchedule (getDate d) (dayOfMonth posix_example) = (getDate d = 1 \<or> getDate d = 15)"
    by (simp add: posix_example_def matchSchedule_first_fifteenth)
  have dw: "matchSchedule (getDay d) (dayOfWeek posix_example) = (getDay d = 5)"
    by (simp add: posix_example_def matchSchedule_single)
  show ?thesis
    unfolding test_def Let_def
    by (simp only: posix_example_wildcards mo se hm dm dw simp_thms if_True if_False) auto
qed

text \<open>
  Claim C8. With the fields of \<open>30 4 1,15 * 5\<close>, at 04:30 of any second and any month:
  a date on the 1st that is not a Friday matches; a Friday that is neither the 1st nor
  the 15th matches; the 2nd on a Tuesday does not match.
\<close>

theorem C8_posix_or:
  assumes "parse ''30 4 1,15 * 5'' = Inr c"
    and "0 \<le> getMonth d" and "getMonth d \<le> 11"
    and "getHours d = 4" and "getMinutes d = 30"
    and "0 \<le> getSeconds d" and "getSeconds d \<le> 59"
  shows "(getDate d = 1 \<and> getDay d \<noteq> 5 \<longrightarrow> test c d = Inr True) \<and>
         (getDay d = 5 \<and> getDate d \<noteq> 1 \<and> getDate d \<noteq> 15 \<longrightarrow> test c d = Inr True) \<and>
         (getDate d = 2 \<and> getDay d = 2 \<longrightarrow> test c d = Inr False)"
proof -
  have c: "c = posix_example"
    using assms(1) by (simp add: parse_examples(1))
  show ?thesis
    unfolding c using posix_example_test[OF assms(2-7)] by simp
qed

text \<open>
  The theorem on Monday 1 March, Friday 5 March and Tuesday 2 March 2021, at 04:30:00.
\<close>

theorem C8_posix_or_witness:
  "parse ''30 4 1,15 * 5'' = Inr posix_example \<and>
   test posix_example (at_half_past_four 2021 2 1 1) = Inr True \<and>
   test posix_example (at_half_past_four 2021 2 5 5) = Inr True \<and>
   test posix_example (at_half_past_four 2021 2 2 2) = Inr False"
  using parse_examples(1)
    C8_posix_or[OF parse_examples(1), of "at_half_past_four 2021 2 1 1"]
    C8_posix_or[OF parse_examples(1), of "at_half_past_four 2021 2 5 5"]
    C8_posix_or[OF parse_examples(1), of "at_half_past_four 2021 2 2 2"]
  by (simp add: at_half_past_four_def)

end
